theory Spec2Isabelle
  imports Main
begin

unbundle bit_operations_syntax

section \<open>Data model\<close>

text \<open>
  The service of \<^verbatim>\<open>index.js\<close> polls Figma for recently edited files and posts one
  event per (file, editor) to a Range webhook. Times are instants in milliseconds since
  the epoch, as \<^verbatim>\<open>moment\<close> compares them; the timestamp strings of the Figma API
  (\<^verbatim>\<open>last_modified\<close>, \<^verbatim>\<open>created_at\<close>) are taken as already parsed.
  Strings are byte strings, in the UTF-8 encoding the digest is taken of.
\<close>

type_synonym instant = int

record project =
  project_id :: string
  project_name :: string

record figma_file =
  file_key :: string
  file_name :: string
  last_modified :: instant

record figma_user =
  user_id :: string
  handle :: string

record version =
  version_id :: string
  created_at :: instant
  user :: figma_user

record editor =
  name :: string
  email :: string

text \<open>
  \<^verbatim>\<open>getFigmaVersionForFiles\<close> builds objects \<^verbatim>\<open>{file, versions}\<close>;
  \<^verbatim>\<open>addEditorsSince\<close> sets a third property \<^verbatim>\<open>editors\<close> on each of them.
  The property \<^verbatim>\<open>file\<close> is the field \<open>entry_file\<close>.
\<close>

record entry =
  entry_file :: figma_file
  versions :: "version list"

record entry_with_editors = entry +
  editors :: "editor list"

record attachment =
  source_id :: string
  provider :: string
  provider_name :: string
  html_url :: string
  attachment_name :: string
  attachment_type :: string
  subtype :: string

record payload =
  email_hash :: string
  is_future :: bool
  reason :: string
  dedupe_strategy :: string
  attachment :: attachment

text \<open>
  A rejected promise carries an error object; the handler of \<^verbatim>\<open>syncFigmaToRange\<close>
  reads its \<^verbatim>\<open>code\<close> and \<^verbatim>\<open>message\<close>.
\<close>

datatype error = Error (err_code: "string option") (err_message: string)

text \<open>
  The lines written by \<^verbatim>\<open>log\<close>, one constructor per call site (the timestamp
  prefix of each line is left out).
\<close>

datatype log_event =
    LogSyncing
  | LogFindingSince instant
  | LogFetchedProjects nat
  | LogFetchedFiles nat
  | LogFilesChanged nat
  | LogNoFilesChanged
  | LogFetchedVersions nat
  | LogFile string
  | LogNotFound string
  | LogFound string string
  | LogSent nat
  | LogSuccessful
  | LogNetworkError
  | LogErrorMessage string
  | LogErrorObject error
  | LogUnsuccessful

text \<open>
  The part of \<^verbatim>\<open>conf.yaml\<close> the pipeline reads: \<^verbatim>\<open>CONF.users\<close> in the order
  \<^verbatim>\<open>for (var name in CONF.users)\<close> enumerates it, and
  \<^verbatim>\<open>CONF.settings.initialImportHistoryMinutes\<close>.
\<close>

record conf =
  users :: "(string \<times> string) list"
  initialImportHistoryMinutes :: int

text \<open>
  What the outside world answers during one cycle: the clock reading of
  \<^verbatim>\<open>var syncStartTime = moment()\<close>, and the settled promise of every request
  (\<open>Inl\<close> rejected, \<open>Inr\<close> resolved). A resolved \<^verbatim>\<open>axios.post\<close> carries the
  HTTP status of the response; the \<open>n\<close>-th payload of the cycle is posted as request
  \<open>n\<close>.
\<close>

record env =
  now :: instant
  projects_response :: "error + project list"
  files_response :: "string \<Rightarrow> error + figma_file list"
  versions_response :: "string \<Rightarrow> error + version list"
  post_response :: "nat \<Rightarrow> payload \<Rightarrow> error + nat"

text \<open>A stage of the promise chain: the lines it logged and how its promise settled.\<close>

type_synonym 'a stage = "log_event list \<times> (error + 'a)"

section \<open>Promises\<close>

text \<open>
  \<^verbatim>\<open>p.then(f)\<close>: a rejection skips \<open>f\<close> and is passed on; otherwise \<open>f\<close> runs on
  the value.
\<close>

definition then_stage :: "'a stage \<Rightarrow> ('a \<Rightarrow> 'b stage) \<Rightarrow> 'b stage" where
  "then_stage p f =
     (case p of
        (l, Inl e) \<Rightarrow> (l, Inl e)
      | (l, Inr x) \<Rightarrow> (case f x of (l', r) \<Rightarrow> (l @ l', r)))"

text \<open>
  \<^verbatim>\<open>Promise.all\<close>: resolved with all values when every promise resolves, rejected as
  soon as one rejects. Which rejection wins among several depends on timing; the model
  takes the first in list order, which only decides the text of the error line.
\<close>

fun Promise_all :: "(error + 'a) list \<Rightarrow> error + 'a list" where
  "Promise_all [] = Inr []"
| "Promise_all (Inl e # rs) = Inl e"
| "Promise_all (Inr x # rs) =
     (case Promise_all rs of Inl e \<Rightarrow> Inl e | Inr xs \<Rightarrow> Inr (x # xs))"

text \<open>
  \<^verbatim>\<open>Array.prototype.forEach\<close> calls the callback on every element and returns
  \<^verbatim>\<open>undefined\<close>: whatever the callback returns is dropped.
\<close>

definition forEach :: "('a \<Rightarrow> 'b) \<Rightarrow> 'a list \<Rightarrow> unit" where
  "forEach f xs = ()"

section \<open>Strings\<close>

text \<open>
  \<^verbatim>\<open>getEmailFromHandle\<close> calls two methods of \<^verbatim>\<open>String.prototype\<close>:
  \<^verbatim>\<open>trim\<close>, which strips the white space and line terminators of Unicode from both
  ends, and \<^verbatim>\<open>toLowerCase\<close>, which applies the lower-case mapping of Unicode. They
  belong to the runtime, not to \<^verbatim>\<open>index.js\<close>: every function that reaches them
  takes them as its first argument, and the theorems hold for whatever the two methods
  compute.
\<close>

record string_methods =
  trim :: "string \<Rightarrow> string"
  toLowerCase :: "string \<Rightarrow> string"

section \<open>SHA-1\<close>

text \<open>
  \<^verbatim>\<open>crypto.createHash("sha1").update(s).digest("hex")\<close>: the SHA-1 digest of the bytes
  of \<open>s\<close>, as 40 lower-case hexadecimal digits. 32-bit words are integers with the
  reduction modulo \<open>2 ^ 32\<close> written out.
\<close>

definition add32 :: "int \<Rightarrow> int \<Rightarrow> int" where
  "add32 x y = (x + y) mod 4294967296"

definition rotl :: "nat \<Rightarrow> int \<Rightarrow> int" where
  "rotl n x = (x * 2 ^ n) mod 4294967296 + x div 2 ^ (32 - n)"

definition not32 :: "int \<Rightarrow> int" where
  "not32 x = 4294967295 - x"

definition pad_zeros :: "nat \<Rightarrow> int list" where
  "pad_zeros n = replicate ((119 - n mod 64) mod 64) 0"

fun be_bytes :: "nat \<Rightarrow> int \<Rightarrow> int list" where
  "be_bytes 0 n = []"
| "be_bytes (Suc k) n = be_bytes k (n div 256) @ [n mod 256]"

definition sha1_pad :: "int list \<Rightarrow> int list" where
  "sha1_pad bs = bs @ [128] @ pad_zeros (length bs) @ be_bytes 8 (8 * int (length bs))"

fun be_words :: "int list \<Rightarrow> int list" where
  "be_words (a # b # c # d # rest) = (((a * 256 + b) * 256 + c) * 256 + d) # be_words rest"
| "be_words _ = []"

text \<open>
  The message schedule as a window of sixteen words: the head is the word of the current
  round, and \<open>W[t+16] = rotl 1 (W[t+13] XOR W[t+8] XOR W[t+2] XOR W[t])\<close> enters at the end.
\<close>

fun slide :: "int list \<Rightarrow> int list" where
  "slide (w0 # w1 # w2 # w3 # w4 # w5 # w6 # w7 # w8 # w9 # w10 # w11 # w12 # w13 # w14 # w15 # _) =
     [w1, w2, w3, w4, w5, w6, w7, w8, w9, w10, w11, w12, w13, w14, w15,
      rotl 1 (w13 XOR w8 XOR w2 XOR w0)]"
| "slide ws = ws"

type_synonym sha_state = "int \<times> int \<times> int \<times> int \<times> int"

definition round_f :: "int \<Rightarrow> int \<Rightarrow> int \<Rightarrow> int \<Rightarrow> int" where
  "round_f i b c d =
     (if i < 20 then (b AND c) OR (not32 b AND d)
      else if i < 40 then b XOR c XOR d
      else if i < 60 then (b AND c) OR (b AND d) OR (c AND d)
      else b XOR c XOR d)"

definition round_k :: "int \<Rightarrow> int" where
  "round_k i =
     (if i < 20 then 0x5A827999
      else if i < 40 then 0x6ED9EBA1
      else if i < 60 then 0x8F1BBCDC
      else 0xCA62C1D6)"

fun rounds :: "nat \<Rightarrow> int \<Rightarrow> int list \<Rightarrow> sha_state \<Rightarrow> sha_state" where
  "rounds 0 i ws s = s"
| "rounds (Suc n) i ws (a, b, c, d, e) =
     rounds n (i + 1) (slide ws)
       (add32 (add32 (add32 (add32 (rotl 5 a) (round_f i b c d)) e) (round_k i)) (hd ws),
        a, rotl 30 b, c, d)"

fun compress :: "sha_state \<Rightarrow> int list \<Rightarrow> sha_state" where
  "compress (h0, h1, h2, h3, h4) chunk =
     (case rounds 80 0 (be_words chunk) (h0, h1, h2, h3, h4) of
        (a, b, c, d, e) \<Rightarrow> (add32 h0 a, add32 h1 b, add32 h2 c, add32 h3 d, add32 h4 e))"

fun chunks :: "nat \<Rightarrow> int list \<Rightarrow> int list list" where
  "chunks 0 bs = []"
| "chunks (Suc k) bs = take 64 bs # chunks k (drop 64 bs)"

definition hex_digit :: "int \<Rightarrow> char" where
  "hex_digit n = ''0123456789abcdef'' ! nat n"

fun hex_int :: "nat \<Rightarrow> int \<Rightarrow> string" where
  "hex_int 0 n = []"
| "hex_int (Suc k) n = hex_int k (n div 16) @ [hex_digit (n mod 16)]"

definition sha1_bytes :: "int list \<Rightarrow> sha_state" where
  "sha1_bytes bs =
     (let p = sha1_pad bs
      in foldl compress (0x67452301, 0xEFCDAB89, 0x98BADCFE, 0x10325476, 0xC3D2E1F0)
           (chunks (length p div 64) p))"

definition sha1_hex :: "string \<Rightarrow> string" where
  "sha1_hex s =
     (case sha1_bytes (map of_char s) of
        (a, b, c, d, e) \<Rightarrow> hex_int 8 a @ hex_int 8 b @ hex_int 8 c @ hex_int 8 d @ hex_int 8 e)"

section \<open>The stages of a cycle\<close>

text \<open>\<^verbatim>\<open>getFigmaProjectsForTeam\<close>: one request, then a log line.\<close>

definition getFigmaProjectsForTeam :: "env \<Rightarrow> project list stage" where
  "getFigmaProjectsForTeam ev =
     (case projects_response ev of
        Inl e \<Rightarrow> ([], Inl e)
      | Inr ps \<Rightarrow> ([LogFetchedProjects (length ps)], Inr ps))"

text \<open>\<^verbatim>\<open>getFigmaFilesForProjects\<close>: one request per project, joined, then flattened.\<close>

definition getFigmaFilesForProjects :: "env \<Rightarrow> project list \<Rightarrow> figma_file list stage" where
  "getFigmaFilesForProjects ev figmaProjects =
     (case Promise_all (map (\<lambda>p. files_response ev (project_id p)) figmaProjects) of
        Inl e \<Rightarrow> ([], Inl e)
      | Inr fileRequestResponses \<Rightarrow>
          (let files = concat fileRequestResponses
           in ([LogFetchedFiles (length files)], Inr files)))"

text \<open>\<^verbatim>\<open>filterFigmaFilesToEditedAfter\<close>: \<^verbatim>\<open>isAfter\<close> is strict.\<close>

definition filterFigmaFilesToEditedAfter ::
  "instant \<Rightarrow> figma_file list \<Rightarrow> figma_file list stage" where
  "filterFigmaFilesToEditedAfter momentMarker figmaFiles =
     (let recentFiles = filter (\<lambda>f. momentMarker < last_modified f) figmaFiles
      in ([if length recentFiles > 0 then LogFilesChanged (length recentFiles)
           else LogNoFilesChanged],
          Inr recentFiles))"

text \<open>\<^verbatim>\<open>getFigmaVersionForFiles\<close>: one request per file, joined.\<close>

definition getFigmaVersionForFiles :: "env \<Rightarrow> figma_file list \<Rightarrow> entry list stage" where
  "getFigmaVersionForFiles ev files =
     (case Promise_all
             (map (\<lambda>f. case versions_response ev (file_key f) of
                          Inl e \<Rightarrow> Inl e
                        | Inr vs \<Rightarrow> Inr \<lparr>entry_file = f, versions = vs\<rparr>) files) of
        Inl e \<Rightarrow> ([], Inl e)
      | Inr entries \<Rightarrow> ([LogFetchedVersions (length entries)], Inr entries))"

text \<open>
  \<^verbatim>\<open>Map.prototype.set\<close>: an existing key keeps its position and takes the new value,
  a new key goes to the end. The map is the list of its entries in iteration order.
\<close>

fun map_set :: "'k \<Rightarrow> 'v \<Rightarrow> ('k \<times> 'v) list \<Rightarrow> ('k \<times> 'v) list" where
  "map_set k v [] = [(k, v)]"
| "map_set k v ((k', v') # m) =
     (if k' = k then (k, v) # m else (k', v') # map_set k v m)"

text \<open>
  The walk over \<^verbatim>\<open>entry.versions\<close> with its index:
  \<^verbatim>\<open>if ((index === 0) | moment(version.created_at).isAfter(momentMarker))\<close>.
\<close>

fun editorsMap_from ::
  "instant \<Rightarrow> nat \<Rightarrow> version list \<Rightarrow> (string \<times> string) list \<Rightarrow> (string \<times> string) list" where
  "editorsMap_from momentMarker index [] m = m"
| "editorsMap_from momentMarker index (v # vs) m =
     editorsMap_from momentMarker (index + 1) vs
       (if index = 0 \<or> momentMarker < created_at v
        then map_set (user_id (user v)) (handle (user v)) m
        else m)"

definition editorsMap :: "instant \<Rightarrow> version list \<Rightarrow> (string \<times> string) list" where
  "editorsMap momentMarker vs = editorsMap_from momentMarker 0 vs []"

text \<open>
  \<^verbatim>\<open>getEmailFromHandle\<close>: the first name of \<^verbatim>\<open>CONF.users\<close> that equals the handle
  after \<^verbatim>\<open>trim().toLowerCase()\<close> on both sides; \<open>None\<close> is \<^verbatim>\<open>undefined\<close>.
\<close>

fun getEmailFromHandle ::
  "string_methods \<Rightarrow> (string \<times> string) list \<Rightarrow> string \<Rightarrow> string option" where
  "getEmailFromHandle js [] h = None"
| "getEmailFromHandle js ((nm, em) # rest) h =
     (if toLowerCase js (trim js nm) = toLowerCase js (trim js h) then Some em
      else getEmailFromHandle js rest h)"

text \<open>
  \<^verbatim>\<open>editorsMap.forEach((handle, id) => ...)\<close>: an editor per entry of the map whose
  handle resolves, a log line in both cases.
\<close>

fun resolveEditors ::
  "string_methods \<Rightarrow> (string \<times> string) list \<Rightarrow> (string \<times> string) list
     \<Rightarrow> log_event list \<times> editor list" where
  "resolveEditors js us [] = ([], [])"
| "resolveEditors js us ((uid, h) # m) =
     (case resolveEditors js us m of
        (l, es) \<Rightarrow>
          (case getEmailFromHandle js us h of
             None \<Rightarrow> (LogNotFound h # l, es)
           | Some editorEmail \<Rightarrow>
               (LogFound h editorEmail # l, \<lparr>name = h, email = editorEmail\<rparr> # es)))"

definition addEditors_entry ::
  "string_methods \<Rightarrow> (string \<times> string) list \<Rightarrow> instant \<Rightarrow> entry
     \<Rightarrow> log_event list \<times> entry_with_editors" where
  "addEditors_entry js us momentMarker en =
     (case resolveEditors js us (editorsMap momentMarker (versions en)) of
        (l, es) \<Rightarrow>
          (LogFile (file_name (entry_file en)) # l,
           \<lparr>entry_file = entry_file en, versions = versions en, editors = es\<rparr>))"

fun addEditorsSince ::
  "string_methods \<Rightarrow> (string \<times> string) list \<Rightarrow> instant \<Rightarrow> entry list
     \<Rightarrow> log_event list \<times> entry_with_editors list" where
  "addEditorsSince js us momentMarker [] = ([], [])"
| "addEditorsSince js us momentMarker (en # entries) =
     (case addEditors_entry js us momentMarker en of
        (l, en') \<Rightarrow>
          (case addEditorsSince js us momentMarker entries of
             (ls, ens) \<Rightarrow> (l @ ls, en' # ens)))"

text \<open>\<^verbatim>\<open>createRangePayloads\<close>: one payload per editor of each entry, in order.\<close>

definition make_payload :: "entry_with_editors \<Rightarrow> editor \<Rightarrow> payload" where
  "make_payload en ed =
     \<lparr>email_hash = sha1_hex (email ed),
      is_future = False,
      reason = ''EDITED'',
      dedupe_strategy = ''UPSERT_PENDING'',
      attachment =
        \<lparr>source_id = file_key (entry_file en),
         provider = ''figma'',
         provider_name = ''Figma'',
         html_url = ''https://www.figma.com/file/'' @ file_key (entry_file en),
         attachment_name = file_name (entry_file en),
         attachment_type = ''DOCUMENT'',
         subtype = ''FIGMA_DOCUMENT''\<rparr>\<rparr>"

definition createRangePayloads :: "entry_with_editors list \<Rightarrow> payload list" where
  "createRangePayloads entries =
     concat (map (\<lambda>en. map (make_payload en) (editors en)) entries)"

text \<open>
  \<^verbatim>\<open>sendRangePayloads\<close>: all posts are joined; in the \<^verbatim>\<open>then\<close> callback the check
  of \<^verbatim>\<open>resp.status\<close> sits in a \<^verbatim>\<open>forEach\<close> callback, whose
  \<^verbatim>\<open>return Promise.reject(...)\<close> returns from that callback only; the outer callback
  goes on to log and to \<^verbatim>\<open>return Promise.resolve()\<close>.
\<close>

definition sendRangePayloads :: "env \<Rightarrow> payload list \<Rightarrow> unit stage" where
  "sendRangePayloads ev payloads =
     (case Promise_all (map (\<lambda>(i, p). post_response ev i p) (enumerate 0 payloads)) of
        Inl e \<Rightarrow> ([], Inl e)
      | Inr responses \<Rightarrow>
          (let u = forEach (\<lambda>status. if status \<noteq> 200
                                      then Some (Inl (Error None ''[object Object]'') :: error + unit)
                                      else None) responses
           in ([LogSent (length payloads)], Inr ())))"

section \<open>The cycle\<close>

text \<open>The promise chain of \<^verbatim>\<open>syncFigmaToRange\<close> up to \<^verbatim>\<open>sendRangePayloads\<close>.\<close>

definition chain :: "string_methods \<Rightarrow> conf \<Rightarrow> env \<Rightarrow> instant \<Rightarrow> unit stage" where
  "chain js cf ev lastSyncedTime =
     then_stage
       (then_stage
         (then_stage
           (then_stage
             (then_stage
               (then_stage (getFigmaProjectsForTeam ev)
                 (getFigmaFilesForProjects ev))
               (filterFigmaFilesToEditedAfter lastSyncedTime))
             (getFigmaVersionForFiles ev))
           (\<lambda>entries. case addEditorsSince js (users cf) lastSyncedTime entries of
                         (l, ens) \<Rightarrow> (l, Inr ens)))
         (\<lambda>entries. ([], Inr (createRangePayloads entries))))
       (sendRangePayloads ev)"

text \<open>The \<^verbatim>\<open>catch\<close> handler's first log line.\<close>

definition catch_log :: "error \<Rightarrow> log_event" where
  "catch_log err =
     (if err_code err = Some ''ECONNRESET'' \<or> err_code err = Some ''ECONNABORTED''
      then LogNetworkError
      else if err_message err \<noteq> [] then LogErrorMessage (err_message err)
      else LogErrorObject err)"

text \<open>
  One run of \<^verbatim>\<open>syncFigmaToRange\<close> to the end of its chain, from the value of
  \<^verbatim>\<open>lastSyncedTime\<close> at its start: the new value of \<^verbatim>\<open>lastSyncedTime\<close>, the
  log, and how the chain before the two handlers settled. \<^verbatim>\<open>subtract(1, "minutes")\<close>
  is 60000 ms.
\<close>

record cycle_result =
  marker :: instant
  cycle_log :: "log_event list"
  settled :: "error + unit"

definition syncFigmaToRange ::
  "string_methods \<Rightarrow> conf \<Rightarrow> env \<Rightarrow> instant \<Rightarrow> cycle_result" where
  "syncFigmaToRange js cf ev lastSyncedTime =
     (let syncStartTime = now ev
      in case chain js cf ev lastSyncedTime of
           (l, Inr u) \<Rightarrow>
             \<lparr>marker = syncStartTime - 60000,
              cycle_log = [LogSyncing, LogFindingSince lastSyncedTime] @ l @ [LogSuccessful],
              settled = Inr ()\<rparr>
         | (l, Inl err) \<Rightarrow>
             \<lparr>marker = lastSyncedTime,
              cycle_log = [LogSyncing, LogFindingSince lastSyncedTime] @ l
                          @ [catch_log err, LogUnsuccessful],
              settled = Inl err\<rparr>)"

text \<open>
  The process: \<^verbatim>\<open>lastSyncedTime\<close> starts at the load time minus the configured
  history, and the cycles run one after the other. \<open>run\<close> lists the value of
  \<^verbatim>\<open>lastSyncedTime\<close> before the first cycle and after each cycle.
\<close>

definition initial_marker :: "conf \<Rightarrow> instant \<Rightarrow> instant" where
  "initial_marker cf t0 = t0 - initialImportHistoryMinutes cf * 60000"

fun run_from :: "string_methods \<Rightarrow> conf \<Rightarrow> instant \<Rightarrow> env list \<Rightarrow> instant list" where
  "run_from js cf m [] = [m]"
| "run_from js cf m (ev # evs) =
     m # run_from js cf (marker (syncFigmaToRange js cf ev m)) evs"

definition run :: "string_methods \<Rightarrow> conf \<Rightarrow> instant \<Rightarrow> env list \<Rightarrow> instant list" where
  "run js cf t0 evs = run_from js cf (initial_marker cf t0) evs"

section \<open>Auxiliary notions and sample data\<close>

text \<open>
  The versions the walk of \<^verbatim>\<open>addEditorsSince\<close> admits, in list order, when the first
  element of the list has the given index; and the map entry a version contributes.
\<close>

definition selected_from :: "instant \<Rightarrow> nat \<Rightarrow> version list \<Rightarrow> version list" where
  "selected_from momentMarker index vs =
     map snd (filter (\<lambda>(i, v). i = 0 \<or> momentMarker < created_at v) (enumerate index vs))"

definition author :: "version \<Rightarrow> string \<times> string" where
  "author v = (user_id (user v), handle (user v))"

text \<open>
  To run the definitions on samples, the two string methods as they act on strings of
  ASCII characters: there \<^verbatim>\<open>trim\<close> strips tab, line feed, vertical tab, form feed,
  carriage return and space, and \<^verbatim>\<open>toLowerCase\<close> maps A-Z to a-z. All handles,
  names and emails of the samples are ASCII. No theorem about all handles refers to this
  sample.
\<close>

definition is_ascii_space :: "char \<Rightarrow> bool" where
  "is_ascii_space c =
     (c \<in> set [CHR 0x09, CHR 0x0A, CHR 0x0B, CHR 0x0C, CHR 0x0D, CHR '' ''])"

definition ascii_trim :: "string \<Rightarrow> string" where
  "ascii_trim s = rev (dropWhile is_ascii_space (rev (dropWhile is_ascii_space s)))"

definition ascii_lower_char :: "char \<Rightarrow> char" where
  "ascii_lower_char c =
     (case map_of (zip ''ABCDEFGHIJKLMNOPQRSTUVWXYZ'' ''abcdefghijklmnopqrstuvwxyz'') c of
        Some d \<Rightarrow> d
      | None \<Rightarrow> c)"

definition ascii_toLowerCase :: "string \<Rightarrow> string" where
  "ascii_toLowerCase s = map ascii_lower_char s"

definition ascii_methods :: string_methods where
  "ascii_methods = \<lparr>trim = ascii_trim, toLowerCase = ascii_toLowerCase\<rparr>"

text \<open>A configuration, some versions and some environments to run the definitions on.\<close>

definition example_users :: "(string \<times> string) list" where
  "example_users = [(''Alice'', ''Alice@Example.com''), (''Bob'', ''bob@example.com'')]"

definition example_conf :: conf where
  "example_conf = \<lparr>users = example_users, initialImportHistoryMinutes = 60\<rparr>"

definition conf_no_history :: conf where
  "conf_no_history = \<lparr>users = example_users, initialImportHistoryMinutes = 0\<rparr>"

definition v0 :: version where
  "v0 = \<lparr>version_id = ''30'', created_at = 900,
         user = \<lparr>user_id = ''A'', handle = '' Alice ''\<rparr>\<rparr>"

definition v1 :: version where
  "v1 = \<lparr>version_id = ''20'', created_at = 2000,
         user = \<lparr>user_id = ''B'', handle = ''BOB''\<rparr>\<rparr>"

definition v2 :: version where
  "v2 = \<lparr>version_id = ''10'', created_at = 800,
         user = \<lparr>user_id = ''A'', handle = ''alice''\<rparr>\<rparr>"

definition v3 :: version where
  "v3 = \<lparr>version_id = ''25'', created_at = 3000,
         user = \<lparr>user_id = ''C'', handle = ''Carol''\<rparr>\<rparr>"

definition example_file :: figma_file where
  "example_file = \<lparr>file_key = ''KEY1'', file_name = ''Design'', last_modified = 3000\<rparr>"

definition example_entry :: entry where
  "example_entry = \<lparr>entry_file = example_file, versions = [v0, v1, v2]\<rparr>"

definition example_project :: project where
  "example_project = \<lparr>project_id = ''7'', project_name = ''Team''\<rparr>"

text \<open>No project at all: every stage succeeds on empty lists.\<close>

definition env_idle :: env where
  "env_idle =
     \<lparr>now = 5000000,
      projects_response = Inr [],
      files_response = (\<lambda>pid. Inr []),
      versions_response = (\<lambda>k. Inr []),
      post_response = (\<lambda>i p. Inr 200)\<rparr>"

text \<open>The project listing is rejected with a connection reset.\<close>

definition env_reset :: env where
  "env_reset =
     env_idle\<lparr>projects_response := Inl (Error (Some ''ECONNRESET'') ''read ECONNRESET'')\<rparr>"

text \<open>One recent file edited by two configured users; the webhook answers 204 No Content.\<close>

definition env_204 :: env where
  "env_204 =
     \<lparr>now = 5000000,
      projects_response = Inr [example_project],
      files_response = (\<lambda>pid. Inr [example_file]),
      versions_response = (\<lambda>k. Inr [v0, v1, v2]),
      post_response = (\<lambda>i p. Inr 204)\<rparr>"

text \<open>One recent file edited by Carol, who is not in the table, and by Bob.\<close>

definition env_carol :: env where
  "env_carol =
     \<lparr>now = 5000000,
      projects_response = Inr [example_project],
      files_response = (\<lambda>pid. Inr [example_file]),
      versions_response = (\<lambda>k. Inr [v3, v1]),
      post_response = (\<lambda>i p. Inr 200)\<rparr>"

section \<open>Promises and the chain\<close>

lemma Promise_all_map_Inr: "Promise_all (map (\<lambda>x. Inr (g x)) xs) = Inr (map g xs)"
  by (induction xs) simp_all

lemma settled_chain: "settled (syncFigmaToRange js cf ev m) = snd (chain js cf ev m)"
  by (simp add: syncFigmaToRange_def split: prod.splits sum.splits)

lemma marker_chain:
  "marker (syncFigmaToRange js cf ev m) =
     (case snd (chain js cf ev m) of Inl e \<Rightarrow> m | Inr u \<Rightarrow> now ev - 60000)"
  by (simp add: syncFigmaToRange_def split: prod.splits sum.splits)

lemma cycle_log_chain:
  "set (fst (chain js cf ev m)) \<subseteq> set (cycle_log (syncFigmaToRange js cf ev m))"
  by (auto simp add: syncFigmaToRange_def split: prod.splits sum.splits)

text \<open>A rejected project listing fails the chain with that error.\<close>

lemma projects_rejected:
  "projects_response ev = Inl e \<Longrightarrow> chain js cf ev m = ([], Inl e)"
  by (simp add: chain_def then_stage_def getFigmaProjectsForTeam_def)

text \<open>
  A chain step is rejected exactly when the promise before it is, or the callback's
  promise is: a rejection at any stage reaches the \<^verbatim>\<open>catch\<close> handler.
\<close>

lemma then_stage_rejected_iff:
  "snd (then_stage p f) = Inl e \<longleftrightarrow>
     snd p = Inl e \<or> (\<exists>x. snd p = Inr x \<and> snd (f x) = Inl e)"
  by (cases p) (auto simp add: then_stage_def split: sum.splits prod.splits)

lemma Promise_all_rejects: "Inl e \<in> set rs \<Longrightarrow> \<exists>e'. Promise_all rs = Inl e'"
proof (induction rs)
  case Nil
  then show ?case by simp
next
  case (Cons r rs)
  then show ?case by (cases r) (auto split: sum.splits)
qed

lemma files_rejected:
  assumes "projects_response ev = Inr ps" and "p \<in> set ps"
    and "files_response ev (project_id p) = Inl e"
  shows "\<exists>e'. settled (syncFigmaToRange js cf ev m) = Inl e'"
proof -
  have "Inl e \<in> set (map (\<lambda>p. files_response ev (project_id p)) ps)"
    using assms(2,3) by force
  then obtain e' where "Promise_all (map (\<lambda>p. files_response ev (project_id p)) ps) = Inl e'"
    using Promise_all_rejects by blast
  then have "snd (chain js cf ev m) = Inl e'"
    using assms(1)
    by (simp add: chain_def then_stage_def getFigmaProjectsForTeam_def
        getFigmaFilesForProjects_def)
  then show ?thesis
    by (auto simp add: settled_chain)
qed

text \<open>When every request resolves, each stage resolves.\<close>

lemma getFigmaFilesForProjects_resolved:
  assumes "\<forall>pid. \<exists>fs. files_response ev pid = Inr fs"
  shows "getFigmaFilesForProjects ev ps =
           ([LogFetchedFiles (length (concat (map (\<lambda>p. projr (files_response ev (project_id p))) ps)))],
            Inr (concat (map (\<lambda>p. projr (files_response ev (project_id p))) ps)))"
proof -
  from assms obtain F where "\<forall>pid. files_response ev pid = Inr (F pid)"
    by metis
  then show ?thesis
    by (simp add: getFigmaFilesForProjects_def Promise_all_map_Inr Let_def)
qed

lemma getFigmaVersionForFiles_resolved:
  assumes "\<forall>k. \<exists>vs. versions_response ev k = Inr vs"
  shows "getFigmaVersionForFiles ev fs =
           ([LogFetchedVersions (length fs)],
            Inr (map (\<lambda>f. \<lparr>entry_file = f, versions = projr (versions_response ev (file_key f))\<rparr>) fs))"
proof -
  from assms obtain V where "\<forall>k. versions_response ev k = Inr (V k)"
    by metis
  then show ?thesis
    by (simp add: getFigmaVersionForFiles_def Promise_all_map_Inr)
qed

lemma sendRangePayloads_resolved:
  assumes "\<forall>i p. \<exists>st. post_response ev i p = Inr st"
  shows "sendRangePayloads ev payloads = ([LogSent (length payloads)], Inr ())"
proof -
  from assms obtain S where "\<forall>i p. post_response ev i p = Inr (S i p)"
    by metis
  then show ?thesis
    by (simp add: sendRangePayloads_def case_prod_unfold Promise_all_map_Inr Let_def)
qed

lemma chain_resolved:
  assumes "projects_response ev = Inr ps"
    and "\<forall>pid. \<exists>fs. files_response ev pid = Inr fs"
    and "\<forall>k. \<exists>vs. versions_response ev k = Inr vs"
    and "\<forall>i p. \<exists>st. post_response ev i p = Inr st"
  shows "snd (chain js cf ev m) = Inr ()"
    and "set (fst (addEditorsSince js (users cf) m
               (map (\<lambda>f. \<lparr>entry_file = f, versions = projr (versions_response ev (file_key f))\<rparr>)
                  (filter (\<lambda>f. m < last_modified f)
                     (concat (map (\<lambda>p. projr (files_response ev (project_id p))) ps))))))
         \<subseteq> set (fst (chain js cf ev m))"
  using assms(1)
  by (auto simp add: chain_def then_stage_def getFigmaProjectsForTeam_def
      getFigmaFilesForProjects_resolved [OF assms(2)] filterFigmaFilesToEditedAfter_def
      getFigmaVersionForFiles_resolved [OF assms(3)] sendRangePayloads_resolved [OF assms(4)]
      split_beta Let_def)

lemma chain_env_idle: "snd (chain js cf env_idle m) = Inr ()"
  by (rule chain_resolved(1) [where ps = "[]"]) (simp_all add: env_idle_def)

lemma chain_env_reset:
  "chain js cf env_reset m = ([], Inl (Error (Some ''ECONNRESET'') ''read ECONNRESET''))"
  by (rule projects_rejected) (simp add: env_reset_def)

section \<open>The marker\<close>

text \<open>
  C2. When the chain of a cycle resolves, \<^verbatim>\<open>lastSyncedTime\<close> becomes the clock reading
  taken at the start of the cycle minus one minute. Nothing else of the environment, and
  no later clock reading, enters the new value.
\<close>

theorem marker_after_success:
  "settled (syncFigmaToRange js cf ev m) = Inr () \<Longrightarrow>
   marker (syncFigmaToRange js cf ev m) = now ev - 60000"
  by (simp add: settled_chain marker_chain)

theorem marker_after_success_witness:
  "settled (syncFigmaToRange ascii_methods example_conf env_idle 1000) = Inr ()
   \<and> marker (syncFigmaToRange ascii_methods example_conf env_idle 1000) = 4940000"
proof -
  have h: "settled (syncFigmaToRange ascii_methods example_conf env_idle 1000) = Inr ()"
    by (simp add: settled_chain chain_env_idle)
  show ?thesis
    using h marker_after_success [OF h] by (simp add: env_idle_def)
qed

text \<open>
  C3. When the chain of a cycle is rejected, at whatever stage, \<^verbatim>\<open>lastSyncedTime\<close>
  keeps its value, so the next cycle runs exactly as it would have from the old value.
\<close>

theorem marker_unchanged_on_failure:
  "settled (syncFigmaToRange js cf ev m) = Inl err \<Longrightarrow>
   marker (syncFigmaToRange js cf ev m) = m
   \<and> syncFigmaToRange js cf ev' (marker (syncFigmaToRange js cf ev m)) = syncFigmaToRange js cf ev' m"
  by (simp add: settled_chain marker_chain)

theorem marker_unchanged_on_failure_witness:
  "settled (syncFigmaToRange ascii_methods example_conf env_reset 1000)
     = Inl (Error (Some ''ECONNRESET'') ''read ECONNRESET'')
   \<and> marker (syncFigmaToRange ascii_methods example_conf env_reset 1000) = 1000
   \<and> syncFigmaToRange ascii_methods example_conf env_idle
        (marker (syncFigmaToRange ascii_methods example_conf env_reset 1000))
       = syncFigmaToRange ascii_methods example_conf env_idle 1000"
proof -
  have h: "settled (syncFigmaToRange ascii_methods example_conf env_reset 1000)
             = Inl (Error (Some ''ECONNRESET'') ''read ECONNRESET'')"
    by (simp add: settled_chain chain_env_reset)
  show ?thesis
    using h marker_unchanged_on_failure [OF h, of env_idle] by simp
qed

text \<open>
  C4. Along a run the marker need not be non-decreasing: with a history of 0 minutes the
  marker starts at the load time, and the first successful cycle, started 50 ms later,
  sets it one minute back from its own start.
\<close>

theorem marker_decreases_without_history:
  "sorted (4999950 # map now [env_idle])
   \<and> run ascii_methods conf_no_history 4999950 [env_idle] = [4999950, 4940000]
   \<and> \<not> sorted (run ascii_methods conf_no_history 4999950 [env_idle])"
proof -
  have "marker (syncFigmaToRange ascii_methods conf_no_history env_idle 4999950) = 4940000"
    by (simp add: marker_chain chain_env_idle) (simp add: env_idle_def)
  then show ?thesis
    by (simp add: run_def initial_marker_def conf_no_history_def) (simp add: env_idle_def)
qed

lemma monotone_run_from:
  "m \<le> t - 60000 \<Longrightarrow> sorted (t # map now evs) \<Longrightarrow> sorted (run_from js cf m evs)"
proof (induction evs arbitrary: m t)
  case Nil
  show ?case by simp
next
  case (Cons ev evs)
  let ?m' = "marker (syncFigmaToRange js cf ev m)"
  have t: "t \<le> now ev" and s: "sorted (now ev # map now evs)"
    using Cons.prems(2) by simp_all
  have m': "?m' = m \<or> ?m' = now ev - 60000"
    by (simp add: marker_chain split: sum.splits)
  with Cons.prems(1) t have le: "m \<le> ?m'" and inv: "?m' \<le> now ev - 60000"
    by auto
  have rest: "sorted (run_from js cf ?m' evs)"
    by (rule Cons.IH [OF inv s])
  have "\<forall>x \<in> set (run_from js cf ?m' evs). ?m' \<le> x"
    using rest by (cases evs) auto
  with le rest show ?case by auto
qed

text \<open>
  C4, amended. With a configured history of at least one minute, cycles that run one
  after the other and a clock that never goes back, the marker never decreases.
\<close>

theorem marker_monotone:
  assumes "1 \<le> initialImportHistoryMinutes cf" and "sorted (t0 # map now evs)"
  shows "sorted (run js cf t0 evs)"
proof -
  have "initial_marker cf t0 \<le> t0 - 60000"
    using assms(1) by (simp add: initial_marker_def)
  then show ?thesis
    unfolding run_def using assms(2) by (rule monotone_run_from)
qed

theorem marker_monotone_witness:
  "1 \<le> initialImportHistoryMinutes example_conf
   \<and> sorted (4999950 # map now [env_reset, env_idle])
   \<and> sorted (run ascii_methods example_conf 4999950 [env_reset, env_idle])"
proof -
  have a: "1 \<le> initialImportHistoryMinutes example_conf"
    by (simp add: example_conf_def)
  have b: "sorted (4999950 # map now [env_reset, env_idle])"
    by (simp add: env_reset_def env_idle_def)
  show ?thesis
    using a b marker_monotone [OF a b] by simp
qed

section \<open>The editors map\<close>

lemma map_of_map_set: "map_of (map_set k v m) = (map_of m)(k \<mapsto> v)"
  by (induction m) (auto simp: fun_upd_twist)

lemma keys_map_set:
  "map fst (map_set k v m) = (if k \<in> fst ` set m then map fst m else map fst m @ [k])"
  by (induction m) force+

lemma set_map_set_keys: "fst ` set (map_set k v m) = insert k (fst ` set m)"
  by (simp add: keys_map_set flip: set_map) auto

lemma distinct_map_set: "distinct (map fst m) \<Longrightarrow> distinct (map fst (map_set k v m))"
  by (simp add: keys_map_set)

lemma selected_from_Nil: "selected_from M i [] = []"
  by (simp add: selected_from_def)

lemma selected_from_Cons:
  "selected_from M i (v # vs) =
     (if i = 0 \<or> M < created_at v then [v] else []) @ selected_from M (Suc i) vs"
  by (simp add: selected_from_def)

lemma distinct_editorsMap_from:
  "distinct (map fst m) \<Longrightarrow> distinct (map fst (editorsMap_from M i vs m))"
  by (induction vs arbitrary: i m) (simp_all add: distinct_map_set)

lemma keys_editorsMap_from_mono:
  "fst ` set m \<subseteq> fst ` set (editorsMap_from M i vs m)"
proof (induction vs arbitrary: i m)
  case Nil
  show ?case by simp
next
  case (Cons v vs)
  have "fst ` set m \<subseteq> fst ` set (if i = 0 \<or> M < created_at v
          then map_set (user_id (user v)) (handle (user v)) m else m)"
    by (auto simp: set_map_set_keys)
  also have "\<dots> \<subseteq> fst ` set (editorsMap_from M (i + 1) vs
       (if i = 0 \<or> M < created_at v then map_set (user_id (user v)) (handle (user v)) m else m))"
    by (rule Cons.IH)
  finally show ?case by simp
qed

lemma head_author_in_editorsMap:
  "user_id (user v) \<in> fst ` set (editorsMap M (v # vs))"
proof -
  have "user_id (user v) \<in> fst ` set (map_set (user_id (user v)) (handle (user v)) [])"
    by simp
  also have "\<dots> \<subseteq> fst ` set (editorsMap_from M 1 vs (map_set (user_id (user v)) (handle (user v)) []))"
    by (rule keys_editorsMap_from_mono)
  finally show ?thesis by (simp add: editorsMap_def)
qed

lemma map_of_editorsMap_from:
  "map_of (editorsMap_from M i vs m) = map_of (rev (map author (selected_from M i vs)) @ m)"
proof (induction vs arbitrary: i m)
  case Nil
  show ?case by (simp add: selected_from_Nil)
next
  case (Cons v vs)
  show ?case
    by (simp add: Cons.IH selected_from_Cons map_of_map_set author_def)
qed

lemma remdups_snoc: "remdups (xs @ [k]) = remdups (filter (\<lambda>x. x \<noteq> k) xs) @ [k]"
  by (induction xs) auto

lemma keys_editorsMap_from:
  "map fst (editorsMap_from M i vs m) =
     map fst m @ rev (remdups (rev (filter (\<lambda>k. k \<notin> fst ` set m)
                                      (map (\<lambda>v. user_id (user v)) (selected_from M i vs)))))"
proof (induction vs arbitrary: i m)
  case Nil
  show ?case by (simp add: selected_from_Nil)
next
  case (Cons v vs)
  let ?k = "user_id (user v)"
  show ?case
  proof (cases "i = 0 \<or> M < created_at v")
    case False
    then show ?thesis by (simp add: Cons.IH selected_from_Cons)
  next
    case sel: True
    show ?thesis
    proof (cases "?k \<in> fst ` set m")
      case True
      with sel show ?thesis
        by (simp add: Cons.IH selected_from_Cons keys_map_set set_map_set_keys insert_absorb)
    next
      case False
      have r: "rev (remdups (rev ys @ [?k])) = ?k # rev (remdups (rev (filter (\<lambda>x. x \<noteq> ?k) ys)))"
        for ys
        by (simp add: remdups_snoc rev_filter)
      from sel False show ?thesis
        by (simp add: Cons.IH selected_from_Cons keys_map_set set_map_set_keys r conj_commute)
    qed
  qed
qed

section \<open>Resolving handles\<close>

lemma getEmailFromHandle_normalised:
  "toLowerCase js (trim js h1) = toLowerCase js (trim js h2) \<Longrightarrow>
   getEmailFromHandle js us h1 = getEmailFromHandle js us h2"
  by (induction us) auto

lemma getEmailFromHandle_in_table:
  "getEmailFromHandle js us h = Some em \<Longrightarrow> em \<in> snd ` set us"
  by (induction us) (auto split: if_splits)

lemma editors_resolveEditors:
  "snd (resolveEditors js us m) =
     map (\<lambda>p. \<lparr>name = snd p, email = the (getEmailFromHandle js us (snd p))\<rparr>)
       (filter (\<lambda>p. getEmailFromHandle js us (snd p) \<noteq> None) m)"
  by (induction us m rule: resolveEditors.induct) (auto split: prod.splits option.splits)

lemma log_resolveEditors:
  "fst (resolveEditors js us m) =
     map (\<lambda>p. case getEmailFromHandle js us (snd p) of
                   None \<Rightarrow> LogNotFound (snd p) | Some em \<Rightarrow> LogFound (snd p) em) m"
  by (induction us m rule: resolveEditors.induct) (auto split: prod.splits option.splits)

lemma snd_addEditors_entry:
  "snd (addEditors_entry js us M en) =
     \<lparr>entry_file = entry_file en, versions = versions en,
      editors = snd (resolveEditors js us (editorsMap M (versions en)))\<rparr>"
  by (simp add: addEditors_entry_def split: prod.splits)

lemma fst_addEditors_entry:
  "fst (addEditors_entry js us M en) =
     LogFile (file_name (entry_file en)) # fst (resolveEditors js us (editorsMap M (versions en)))"
  by (simp add: addEditors_entry_def split: prod.splits)

lemma entries_addEditorsSince:
  "snd (addEditorsSince js us M entries) = map (\<lambda>en. snd (addEditors_entry js us M en)) entries"
  by (induction entries) (auto split: prod.splits)

lemma log_addEditorsSince:
  "fst (addEditorsSince js us M entries) = concat (map (\<lambda>en. fst (addEditors_entry js us M en)) entries)"
  by (induction entries) (auto split: prod.splits)

lemma editor_resolved:
  assumes "en' \<in> set (snd (addEditorsSince js us M entries))" and "ed \<in> set (editors en')"
  shows "getEmailFromHandle js us (name ed) = Some (email ed)"
  using assms
  by (auto simp add: entries_addEditorsSince snd_addEditors_entry editors_resolveEditors)

lemma not_found_logged:
  assumes "en \<in> set entries" and "(uid, h) \<in> set (editorsMap M (versions en))"
    and "getEmailFromHandle js us h = None"
  shows "LogNotFound h \<in> set (fst (addEditorsSince js us M entries))"
proof -
  have "LogNotFound h \<in> set (fst (resolveEditors js us (editorsMap M (versions en))))"
    using assms(2,3) by (force simp add: log_resolveEditors image_iff)
  then have "LogNotFound h \<in> set (fst (addEditors_entry js us M en))"
    by (simp add: fst_addEditors_entry)
  with assms(1) show ?thesis
    by (auto simp add: log_addEditorsSince)
qed

lemma sample_editorsMap: "editorsMap 1000 [v0, v1, v2] = [(''A'', '' Alice ''), (''B'', ''BOB'')]"
  by (simp add: editorsMap_def v0_def v1_def v2_def)

lemmas ascii_defs = ascii_methods_def ascii_trim_def ascii_toLowerCase_def ascii_lower_char_def
  is_ascii_space_def

lemma sample_Alice: "getEmailFromHandle ascii_methods example_users '' Alice '' = Some ''Alice@Example.com''"
  by (simp add: example_users_def ascii_defs)

lemma sample_BOB: "getEmailFromHandle ascii_methods example_users ''BOB'' = Some ''bob@example.com''"
  by (simp add: example_users_def ascii_defs)

lemma sample_Carol: "getEmailFromHandle ascii_methods example_users ''Carol'' = None"
  by (simp add: example_users_def ascii_defs)

lemma sample_editors:
  "editors (snd (addEditors_entry ascii_methods example_users 1000 example_entry)) =
     [\<lparr>name = '' Alice '', email = ''Alice@Example.com''\<rparr>,
      \<lparr>name = ''BOB'', email = ''bob@example.com''\<rparr>]"
  by (simp add: snd_addEditors_entry example_entry_def sample_editorsMap editors_resolveEditors
      sample_Alice sample_BOB)

section \<open>The extractor\<close>

text \<open>
  C5. Whatever the marker, the user id of the first version of a non-empty list is a key
  of the editors map, also when that version is not after the marker; and the editor
  built from that map entry is in \<^verbatim>\<open>entry.editors\<close> as soon as its handle resolves.
\<close>

theorem first_version_author_included:
  assumes "vs \<noteq> []"
  shows "\<exists>h. (user_id (user (hd vs)), h) \<in> set (editorsMap M vs)
           \<and> (\<forall>em. getEmailFromHandle js us h = Some em \<longrightarrow>
                 \<lparr>name = h, email = em\<rparr>
                   \<in> set (editors (snd (addEditors_entry js us M \<lparr>entry_file = f, versions = vs\<rparr>))))"
proof -
  from assms obtain v ws where vs: "vs = v # ws"
    by (cases vs) auto
  have "user_id (user v) \<in> fst ` set (editorsMap M (v # ws))"
    by (rule head_author_in_editorsMap)
  then obtain h where h: "(user_id (user v), h) \<in> set (editorsMap M (v # ws))"
    by force
  have "\<lparr>name = h, email = em\<rparr>
          \<in> set (editors (snd (addEditors_entry js us M \<lparr>entry_file = f, versions = v # ws\<rparr>)))"
    if "getEmailFromHandle js us h = Some em" for em
    using h that by (force simp add: snd_addEditors_entry editors_resolveEditors image_iff)
  with h vs show ?thesis by auto
qed

theorem first_version_author_included_witness:
  "[v0] \<noteq> [] \<and> created_at (hd [v0]) \<le> 1000
   \<and> (''A'', '' Alice '') \<in> set (editorsMap 1000 [v0])
   \<and> \<lparr>name = '' Alice '', email = ''Alice@Example.com''\<rparr>
        \<in> set (editors (snd (addEditors_entry ascii_methods example_users 1000
                                 \<lparr>entry_file = example_file, versions = [v0]\<rparr>)))"
proof -
  have ne: "[v0] \<noteq> []" by simp
  have m: "editorsMap 1000 [v0] = [(''A'', '' Alice '')]"
    by (simp add: editorsMap_def v0_def)
  from first_version_author_included [OF ne, of 1000 ascii_methods example_users example_file]
  show ?thesis
    by (simp add: m sample_Alice) (simp add: v0_def)
qed

text \<open>
  C6. The editors map has one entry per user id. The handle kept for a user id is the one
  of the last version of that user, in list order, among the versions the walk admits
  (the first of the list and those created after the marker): later writes of
  \<^verbatim>\<open>Map.set\<close> replace earlier ones. The entries are in the order in which the user
  ids are first admitted. On the versions [A old, B new, A old] the map is A, then B, and
  the editors are those of A and B whose handle resolves, in that order.
\<close>

theorem editors_deduplicated_in_discovery_order:
  "distinct (map fst (editorsMap M vs))
   \<and> map_of (editorsMap M vs) = map_of (rev (map author (selected_from M 0 vs)))
   \<and> map fst (editorsMap M vs)
       = rev (remdups (rev (map (\<lambda>v. user_id (user v)) (selected_from M 0 vs))))
   \<and> editorsMap 1000 [v0, v1, v2] = [(''A'', '' Alice ''), (''B'', ''BOB'')]
   \<and> map name (editors (snd (addEditors_entry js us 1000 example_entry)))
       = filter (\<lambda>h. getEmailFromHandle js us h \<noteq> None) ['' Alice '', ''BOB'']"
proof -
  have d: "distinct (map fst (editorsMap M vs))"
    by (simp add: editorsMap_def distinct_editorsMap_from)
  have l: "map_of (editorsMap M vs) = map_of (rev (map author (selected_from M 0 vs)))"
    by (simp add: editorsMap_def map_of_editorsMap_from)
  have k: "map fst (editorsMap M vs)
             = rev (remdups (rev (map (\<lambda>v. user_id (user v)) (selected_from M 0 vs))))"
    by (simp add: editorsMap_def keys_editorsMap_from)
  have n: "map name (editors (snd (addEditors_entry js us 1000 example_entry)))
             = filter (\<lambda>h. getEmailFromHandle js us h \<noteq> None) ['' Alice '', ''BOB'']"
    by (simp add: snd_addEditors_entry example_entry_def sample_editorsMap editors_resolveEditors
        del: resolveEditors.simps)
  from d l k sample_editorsMap n show ?thesis
    by blast
qed

theorem editors_deduplicated_in_discovery_order_witness:
  "distinct (map fst (editorsMap 1000 [v0, v1, v2]))
   \<and> map_of (editorsMap 1000 [v0, v1, v2]) ''A'' = Some '' Alice ''
   \<and> map fst (editorsMap 1000 [v0, v1, v2]) = [''A'', ''B'']
   \<and> map name (editors (snd (addEditors_entry ascii_methods example_users 1000 example_entry)))
       = ['' Alice '', ''BOB'']"
  using editors_deduplicated_in_discovery_order
          [of 1000 "[v0, v1, v2]" ascii_methods example_users]
  by (simp add: sample_Alice sample_BOB)

section \<open>The resolver\<close>

text \<open>
  C7. Whatever \<^verbatim>\<open>trim\<close> and \<^verbatim>\<open>toLowerCase\<close> compute, two handles that are
  equal after \<^verbatim>\<open>trim().toLowerCase()\<close> resolve alike, to the same email or both to
  nothing, in every table. So do \<^verbatim>\<open>" Alice "\<close> and \<^verbatim>\<open>"alice"\<close>, given what
  the two methods return on them: \<^verbatim>\<open>trim\<close> strips the two spaces and leaves
  \<^verbatim>\<open>"alice"\<close> as it is, and \<^verbatim>\<open>toLowerCase\<close> gives \<^verbatim>\<open>"alice"\<close> for both.
\<close>

theorem resolver_ignores_case_and_outer_space:
  "(toLowerCase js (trim js h1) = toLowerCase js (trim js h2) \<longrightarrow>
      getEmailFromHandle js us h1 = getEmailFromHandle js us h2)
   \<and> (trim js '' Alice '' = ''Alice'' \<and> trim js ''alice'' = ''alice''
        \<and> toLowerCase js ''Alice'' = ''alice'' \<and> toLowerCase js ''alice'' = ''alice'' \<longrightarrow>
      getEmailFromHandle js us '' Alice '' = getEmailFromHandle js us ''alice'')"
proof -
  have "getEmailFromHandle js us '' Alice '' = getEmailFromHandle js us ''alice''"
    if "trim js '' Alice '' = ''Alice''" and "trim js ''alice'' = ''alice''"
      and "toLowerCase js ''Alice'' = ''alice''" and "toLowerCase js ''alice'' = ''alice''"
    by (rule getEmailFromHandle_normalised) (simp only: that)
  then show ?thesis
    by (auto intro: getEmailFromHandle_normalised)
qed

theorem resolver_ignores_case_and_outer_space_witness:
  "toLowerCase ascii_methods (trim ascii_methods ''  BOB'')
     = toLowerCase ascii_methods (trim ascii_methods ''bob '')
   \<and> getEmailFromHandle ascii_methods example_users ''  BOB'' = Some ''bob@example.com''
   \<and> getEmailFromHandle ascii_methods example_users ''bob '' = Some ''bob@example.com''
   \<and> trim ascii_methods '' Alice '' = ''Alice'' \<and> trim ascii_methods ''alice'' = ''alice''
   \<and> toLowerCase ascii_methods ''Alice'' = ''alice''
   \<and> toLowerCase ascii_methods ''alice'' = ''alice''
   \<and> getEmailFromHandle ascii_methods example_users '' Alice '' = Some ''Alice@Example.com''
   \<and> getEmailFromHandle ascii_methods example_users ''alice'' = Some ''Alice@Example.com''"
proof -
  have e: "toLowerCase ascii_methods (trim ascii_methods ''  BOB'')
             = toLowerCase ascii_methods (trim ascii_methods ''bob '')"
    by (simp add: ascii_defs)
  have b: "getEmailFromHandle ascii_methods example_users ''bob '' = Some ''bob@example.com''"
    by (simp add: example_users_def ascii_defs)
  have t: "trim ascii_methods '' Alice '' = ''Alice''" "trim ascii_methods ''alice'' = ''alice''"
    "toLowerCase ascii_methods ''Alice'' = ''alice''"
    "toLowerCase ascii_methods ''alice'' = ''alice''"
    by (simp_all add: ascii_defs)
  note r = resolver_ignores_case_and_outer_space
  from r [where js = ascii_methods and ?h1.0 = "''  BOB''" and ?h2.0 = "''bob ''"
            and us = example_users] e b
  have "getEmailFromHandle ascii_methods example_users ''  BOB'' = Some ''bob@example.com''"
    by simp
  moreover from r [where js = ascii_methods and us = example_users] t sample_Alice
  have "getEmailFromHandle ascii_methods example_users ''alice'' = Some ''Alice@Example.com''"
    by simp
  ultimately show ?thesis
    using e b t sample_Alice by simp
qed

section \<open>The extraction stage as a whole\<close>

text \<open>
  C10. \<^verbatim>\<open>addEditorsSince\<close> returns the entries it was given, in the same number and
  order and with the same \<^verbatim>\<open>file\<close> and \<^verbatim>\<open>versions\<close>: dropping the added
  \<^verbatim>\<open>editors\<close> gives the input back.
\<close>

theorem addEditorsSince_only_adds_editors:
  "map entry.truncate (snd (addEditorsSince js us M entries)) = entries
   \<and> length (snd (addEditorsSince js us M entries)) = length entries
   \<and> map entry_file (snd (addEditorsSince js us M entries)) = map entry_file entries
   \<and> map versions (snd (addEditorsSince js us M entries)) = map versions entries"
proof -
  have "(\<lambda>x::entry. \<lparr>entry_file = entry_file x, versions = versions x\<rparr>) = (\<lambda>x. x)"
    by (rule ext) simp
  then show ?thesis
    by (simp add: entries_addEditorsSince snd_addEditors_entry entry.truncate_def comp_def)
qed

theorem addEditorsSince_only_adds_editors_witness:
  "map entry.truncate (snd (addEditorsSince ascii_methods example_users 1000 [example_entry, example_entry]))
     = [example_entry, example_entry]
   \<and> length (snd (addEditorsSince ascii_methods example_users 1000 [example_entry, example_entry])) = 2"
  using addEditorsSince_only_adds_editors
          [of ascii_methods example_users 1000 "[example_entry, example_entry]"]
  by simp

text \<open>
  C8. In a cycle all of whose requests resolve, an editor whose handle is not in the
  table does not stop the cycle: the chain resolves, the marker advances, and the line
  saying that the handle was not found is in the log. No editor with that handle is put
  into \<^verbatim>\<open>entry.editors\<close>, and there are exactly as many payloads as map entries
  whose handle resolves.
\<close>

theorem unresolved_editor_is_skipped:
  assumes "projects_response ev = Inr ps"
    and "\<forall>pid. \<exists>fs. files_response ev pid = Inr fs"
    and "\<forall>k. \<exists>vs. versions_response ev k = Inr vs"
    and "\<forall>i p. \<exists>st. post_response ev i p = Inr st"
    and "p \<in> set ps" and "files_response ev (project_id p) = Inr fs" and "f \<in> set fs"
    and "m < last_modified f" and "versions_response ev (file_key f) = Inr vs"
    and "(uid, h) \<in> set (editorsMap m vs)" and "getEmailFromHandle js (users cf) h = None"
  shows "settled (syncFigmaToRange js cf ev m) = Inr ()
         \<and> marker (syncFigmaToRange js cf ev m) = now ev - 60000
         \<and> LogNotFound h \<in> set (cycle_log (syncFigmaToRange js cf ev m))
         \<and> (\<forall>entries. \<forall>en \<in> set (snd (addEditorsSince js (users cf) m entries)).
               \<forall>ed \<in> set (editors en). name ed \<noteq> h)
         \<and> (\<forall>entries.
               length (createRangePayloads (snd (addEditorsSince js (users cf) m entries)))
                 = (\<Sum>en\<leftarrow>entries.
                      length (filter (\<lambda>p. getEmailFromHandle js (users cf) (snd p) \<noteq> None)
                                (editorsMap m (versions en)))))"
proof -
  let ?entries = "map (\<lambda>f. \<lparr>entry_file = f, versions = projr (versions_response ev (file_key f))\<rparr>)
                    (filter (\<lambda>f. m < last_modified f)
                       (concat (map (\<lambda>p. projr (files_response ev (project_id p))) ps)))"
  have s: "snd (chain js cf ev m) = Inr ()"
    by (rule chain_resolved(1) [OF assms(1-4)])
  have "f \<in> set (concat (map (\<lambda>p. projr (files_response ev (project_id p))) ps))"
    using assms(5-7) by force
  with assms(8) have mem: "\<lparr>entry_file = f, versions = vs\<rparr> \<in> set ?entries"
    using assms(9) by force
  have "(uid, h) \<in> set (editorsMap m (versions \<lparr>entry_file = f, versions = vs\<rparr>))"
    using assms(10) by simp
  then have "LogNotFound h \<in> set (fst (addEditorsSince js (users cf) m ?entries))"
    by (rule not_found_logged [OF mem _ assms(11)])
  then have l: "LogNotFound h \<in> set (cycle_log (syncFigmaToRange js cf ev m))"
    using chain_resolved(2) [OF assms(1-4), of js cf m] cycle_log_chain [of js cf ev m] by blast
  have x: "name ed \<noteq> h"
    if "en \<in> set (snd (addEditorsSince js (users cf) m entries))" and "ed \<in> set (editors en)"
    for entries en ed
    using editor_resolved [OF that] assms(11) by auto
  have n: "length (createRangePayloads (snd (addEditorsSince js (users cf) m entries)))
             = (\<Sum>en\<leftarrow>entries.
                  length (filter (\<lambda>p. getEmailFromHandle js (users cf) (snd p) \<noteq> None)
                            (editorsMap m (versions en))))" for entries
    by (simp add: createRangePayloads_def entries_addEditorsSince snd_addEditors_entry
        editors_resolveEditors length_concat comp_def)
  from s l x n show ?thesis
    by (simp add: settled_chain marker_chain)
qed

lemma sample_editorsMap_carol:
  "editorsMap 1000 [v3, v1] = [(''C'', ''Carol''), (''B'', ''BOB'')]"
  by (simp add: editorsMap_def v3_def v1_def)

theorem unresolved_editor_is_skipped_witness:
  "(''C'', ''Carol'') \<in> set (editorsMap 1000 [v3, v1])
   \<and> getEmailFromHandle ascii_methods (users example_conf) ''Carol'' = None
   \<and> settled (syncFigmaToRange ascii_methods example_conf env_carol 1000) = Inr ()
   \<and> marker (syncFigmaToRange ascii_methods example_conf env_carol 1000) = 4940000
   \<and> LogNotFound ''Carol'' \<in> set (cycle_log (syncFigmaToRange ascii_methods example_conf env_carol 1000))
   \<and> length (createRangePayloads (snd (addEditorsSince ascii_methods (users example_conf) 1000
               [\<lparr>entry_file = example_file, versions = [v3, v1]\<rparr>]))) = 1"
proof -
  have a: "projects_response env_carol = Inr [example_project]"
    and b: "\<forall>pid. \<exists>fs. files_response env_carol pid = Inr fs"
    and c: "\<forall>k. \<exists>vs. versions_response env_carol k = Inr vs"
    and d: "\<forall>i p. \<exists>st. post_response env_carol i p = Inr st"
    and e: "example_project \<in> set [example_project]"
    and f: "files_response env_carol (project_id example_project) = Inr [example_file]"
    and g: "example_file \<in> set [example_file]"
    and h: "1000 < last_modified example_file"
    and i: "versions_response env_carol (file_key example_file) = Inr [v3, v1]"
    by (simp_all add: env_carol_def example_file_def)
  have j: "(''C'', ''Carol'') \<in> set (editorsMap 1000 [v3, v1])"
    by (simp add: sample_editorsMap_carol)
  have k: "getEmailFromHandle ascii_methods (users example_conf) ''Carol'' = None"
    by (simp add: example_conf_def sample_Carol)
  note t = unresolved_editor_is_skipped [OF a b c d e f g h i j k]
  from t have n: "length (createRangePayloads (snd (addEditorsSince ascii_methods (users example_conf) 1000
                     [\<lparr>entry_file = example_file, versions = [v3, v1]\<rparr>])))
                  = (\<Sum>en\<leftarrow>[\<lparr>entry_file = example_file, versions = [v3, v1]\<rparr>].
                       length (filter (\<lambda>p. getEmailFromHandle ascii_methods (users example_conf) (snd p) \<noteq> None)
                                 (editorsMap 1000 (versions en))))"
    by blast
  have o: "(\<Sum>en\<leftarrow>[\<lparr>entry_file = example_file, versions = [v3, v1]\<rparr>].
              length (filter (\<lambda>p. getEmailFromHandle ascii_methods (users example_conf) (snd p) \<noteq> None)
                        (editorsMap 1000 (versions en)))) = 1"
    by (simp add: sample_editorsMap_carol example_conf_def sample_Carol sample_BOB)
  from t have "settled (syncFigmaToRange ascii_methods example_conf env_carol 1000) = Inr ()"
    and "marker (syncFigmaToRange ascii_methods example_conf env_carol 1000) = now env_carol - 60000"
    and "LogNotFound ''Carol'' \<in> set (cycle_log (syncFigmaToRange ascii_methods example_conf env_carol 1000))"
    by blast+
  with j k n o show ?thesis
    by (simp add: env_carol_def)
qed

section \<open>Dispatch\<close>

text \<open>What the dispatch stage does: it resolves exactly when every post resolves.\<close>

lemma Promise_all_resolves_iff:
  "(\<exists>xs. Promise_all rs = Inr xs) \<longleftrightarrow> (\<forall>r \<in> set rs. \<exists>x. r = Inr x)"
proof (induction rs)
  case Nil
  show ?case by simp
next
  case (Cons r rs)
  then show ?case by (cases r) (auto split: sum.splits)
qed

lemma sendRangePayloads_settles:
  "snd (sendRangePayloads ev payloads) = Inr () \<longleftrightarrow>
     (\<forall>n < length payloads. \<exists>st. post_response ev n (payloads ! n) = Inr st)"
proof -
  let ?rs = "map (\<lambda>(i, p). post_response ev i p) (enumerate 0 payloads)"
  have "snd (sendRangePayloads ev payloads) = Inr () \<longleftrightarrow> (\<exists>xs. Promise_all ?rs = Inr xs)"
    by (auto simp add: sendRangePayloads_def Let_def split: sum.splits)
  also have "\<dots> \<longleftrightarrow> (\<forall>r \<in> set ?rs. \<exists>x. r = Inr x)"
    by (rule Promise_all_resolves_iff)
  also have "\<dots> \<longleftrightarrow> (\<forall>n < length payloads. \<exists>st. post_response ev n (payloads ! n) = Inr st)"
    by (auto simp add: in_set_enumerate_eq all_set_conv_all_nth nth_enumerate_eq)
  finally show ?thesis .
qed

text \<open>
  C1. A response with a status other than 200 does not fail the dispatch: with two
  payloads and a webhook that answers 204 to each post, \<^verbatim>\<open>sendRangePayloads\<close>
  resolves, the cycle logs its success and the marker advances.
\<close>

theorem status_204_advances_marker:
  "post_response env_204 0 (make_payload (snd (addEditors_entry ascii_methods example_users 1000 example_entry))
                              \<lparr>name = '' Alice '', email = ''Alice@Example.com''\<rparr>) = Inr 204
   \<and> length (createRangePayloads (snd (addEditorsSince ascii_methods example_users 1000 [example_entry]))) = 2
   \<and> sendRangePayloads env_204
        (createRangePayloads (snd (addEditorsSince ascii_methods example_users 1000 [example_entry])))
       = ([LogSent 2], Inr ())
   \<and> settled (syncFigmaToRange ascii_methods example_conf env_204 1000) = Inr ()
   \<and> marker (syncFigmaToRange ascii_methods example_conf env_204 1000) = 4940000
   \<and> LogSuccessful \<in> set (cycle_log (syncFigmaToRange ascii_methods example_conf env_204 1000))"
proof -
  have r: "\<forall>i p. \<exists>st. post_response env_204 i p = Inr st"
    by (simp add: env_204_def)
  have n: "length (createRangePayloads (snd (addEditorsSince ascii_methods example_users 1000 [example_entry]))) = 2"
    by (simp add: createRangePayloads_def entries_addEditorsSince sample_editors
        del: addEditorsSince.simps)
  have s: "sendRangePayloads env_204
             (createRangePayloads (snd (addEditorsSince ascii_methods example_users 1000 [example_entry])))
           = ([LogSent 2], Inr ())"
    by (simp only: sendRangePayloads_resolved [OF r] n)
  have c: "snd (chain ascii_methods example_conf env_204 1000) = Inr ()"
    by (rule chain_resolved(1) [where ps = "[example_project]"]) (simp_all add: env_204_def)
  have m: "marker (syncFigmaToRange ascii_methods example_conf env_204 1000) = 4940000"
    by (simp add: marker_chain c) (simp add: env_204_def)
  have l: "LogSuccessful \<in> set (cycle_log (syncFigmaToRange ascii_methods example_conf env_204 1000))"
    using c by (auto simp add: syncFigmaToRange_def split: prod.splits sum.splits)
  have p: "post_response env_204 0 (make_payload (snd (addEditors_entry ascii_methods example_users 1000 example_entry))
                              \<lparr>name = '' Alice '', email = ''Alice@Example.com''\<rparr>) = Inr 204"
    by (simp add: env_204_def)
  from p n s c m l show ?thesis
    by (simp only: settled_chain simp_thms)
qed

section \<open>SHA-1 on sample inputs\<close>

text \<open>
  Numerals for the recursion counters, so that the digest of a short message can be
  computed by rewriting.
\<close>

lemma be_bytes_numeral:
  "be_bytes (numeral k) n = be_bytes (pred_numeral k) (n div 256) @ [n mod 256]"
  by (simp add: numeral_eq_Suc)

lemma replicate_num: "replicate (numeral k) x = x # replicate (pred_numeral k) x"
  by (simp add: numeral_eq_Suc)

lemma rounds_numeral:
  "rounds (numeral k) i ws (a, b, c, d, e) =
     rounds (pred_numeral k) (i + 1) (slide ws)
       (add32 (add32 (add32 (add32 (rotl 5 a) (round_f i b c d)) e) (round_k i)) (hd ws),
        a, rotl 30 b, c, d)"
  by (simp add: numeral_eq_Suc)

lemma hex_int_numeral:
  "hex_int (numeral k) n = hex_int (pred_numeral k) (n div 16) @ [hex_digit (n mod 16)]"
  by (simp add: numeral_eq_Suc)

lemma length_be_bytes: "length (be_bytes k n) = k"
  by (induction k arbitrary: n) simp_all

lemma pad_short: "n < 56 \<Longrightarrow> (119 - n mod 64) mod 64 = 55 - n" for n :: nat
proof -
  assume n: "n < 56"
  then have e: "119 - n = (55 - n) + 64" by arith
  have "(119 - n) mod 64 = ((55 - n) + 64) mod 64" by (simp only: e)
  also have "\<dots> = 55 - n" by simp
  finally show ?thesis using n by simp
qed

lemma length_sha1_pad_short: "length bs < 56 \<Longrightarrow> length (sha1_pad bs) = 64"
  using pad_short [of "length bs"]
  by (simp add: sha1_pad_def pad_zeros_def length_be_bytes)

lemma sha1_bytes_one_block:
  "length bs < 56 \<Longrightarrow>
   sha1_bytes bs =
     compress (0x67452301, 0xEFCDAB89, 0x98BADCFE, 0x10325476, 0xC3D2E1F0) (sha1_pad bs)"
  by (simp add: sha1_bytes_def Let_def length_sha1_pad_short)

text \<open>
  The digest of \<^verbatim>\<open>abc\<close> is the one the standard gives for it (FIPS 180); then
  the digests of some email addresses.
\<close>

lemma sha1_abc: "sha1_hex ''abc'' = ''a9993e364706816aba3e25717850c26c9cd0d89d''"
proof -
  have l: "length (map of_char ''abc'' :: int list) = 3"
    by simp
  have w: "be_words (sha1_pad (map of_char ''abc'')) =
    [1633837952, 0, 0, 0, 0, 0, 0, 0, 0, 0, 0, 0, 0, 0, 0, 24]"
    by (simp add: sha1_pad_def pad_zeros_def l be_bytes_numeral replicate_num)
  have r: "rounds 80 0
    [1633837952, 0, 0, 0, 0, 0, 0, 0, 0, 0, 0, 0, 0, 0, 0, 24]
    (0x67452301, 0xEFCDAB89, 0x98BADCFE, 0x10325476, 0xC3D2E1F0) =
    (1112808245, 1463342561, 562251891, 1746824694, 3640522413)"
    by (simp add: rounds_numeral add32_def rotl_def round_f_def round_k_def not32_def)
  have b: "sha1_bytes (map of_char ''abc'') =
    (2845392438, 1191608682, 3124634993, 2018558572, 2630932637)"
    by (simp only: sha1_bytes_one_block l compress.simps w r prod.case) (simp add: add32_def)
  show ?thesis
    by (simp only: sha1_hex_def b prod.case) (simp add: hex_int_numeral hex_digit_def)
qed

lemma sha1_Alice_mixed: "sha1_hex ''Alice@Example.com'' = ''022ffe6981ab59475c1a142b6fd58f32857b500f''"
proof -
  have l: "length (map of_char ''Alice@Example.com'' :: int list) = 17"
    by simp
  have w: "be_words (sha1_pad (map of_char ''Alice@Example.com'')) =
    [1097623907, 1698710904, 1634562156, 1697538927, 1837105152, 0, 0, 0, 0, 0, 0, 0, 0, 0, 0, 136]"
    by (simp add: sha1_pad_def pad_zeros_def l be_bytes_numeral replicate_num)
  have r: "rounds 80 0
    [1097623907, 1698710904, 1634562156, 1697538927, 1837105152, 0, 0, 0, 0, 0, 0, 0, 0, 0, 0, 136]
    (0x67452301, 0xEFCDAB89, 0x98BADCFE, 0x10325476, 0xC3D2E1F0) =
    (2599082856, 2447224254, 3277797165, 1604532924, 3249040927)"
    by (simp add: rounds_numeral add32_def rotl_def round_f_def round_k_def not32_def)
  have b: "sha1_bytes (map of_char ''Alice@Example.com'') =
    (36699753, 2175490375, 1545212971, 1876266802, 2239451151)"
    by (simp only: sha1_bytes_one_block l compress.simps w r prod.case) (simp add: add32_def)
  show ?thesis
    by (simp only: sha1_hex_def b prod.case) (simp add: hex_int_numeral hex_digit_def)
qed

lemma sha1_alice_lower: "sha1_hex ''alice@example.com'' = ''fc2398a73dd54d6237c4fdb58fd7d75347cf5af3''"
proof -
  have l: "length (map of_char ''alice@example.com'' :: int list) = 17"
    by simp
  have w: "be_words (sha1_pad (map of_char ''alice@example.com'')) =
    [1634494819, 1698719096, 1634562156, 1697538927, 1837105152, 0, 0, 0, 0, 0, 0, 0, 0, 0, 0, 136]"
    by (simp add: sha1_pad_def pad_zeros_def l be_bytes_numeral replicate_num)
  have r: "rounds 80 0
    [1634494819, 1698719096, 1634562156, 1697538927, 1837105152, 0, 0, 0, 0, 0, 0, 0, 0, 0, 0, 136]
    (0x67452301, 0xEFCDAB89, 0x98BADCFE, 0x10325476, 0xC3D2E1F0) =
    (2497607078, 1309123033, 2668241079, 2141553373, 2214361347)"
    by (simp add: rounds_numeral add32_def rotl_def round_f_def round_k_def not32_def)
  have b: "sha1_bytes (map of_char ''alice@example.com'') =
    (4230191271, 1037389154, 935656885, 2413287251, 1204771571)"
    by (simp only: sha1_bytes_one_block l compress.simps w r prod.case) (simp add: add32_def)
  show ?thesis
    by (simp only: sha1_hex_def b prod.case) (simp add: hex_int_numeral hex_digit_def)
qed

lemma sha1_alice_spaced: "sha1_hex '' alice@example.com '' = ''302b1f3fe21c8b507d512805cfab960b0b4d6a41''"
proof -
  have l: "length (map of_char '' alice@example.com '' :: int list) = 19"
    by simp
  have w: "be_words (sha1_pad (map of_char '' alice@example.com '')) =
    [543255657, 1667580005, 2019650928, 1818570339, 1869422720, 0, 0, 0, 0, 0, 0, 0, 0, 0, 0, 152]"
    by (simp add: sha1_pad_def pad_zeros_def l be_bytes_numeral replicate_num)
  have r: "rounds 80 0
    [543255657, 1667580005, 2019650928, 1818570339, 1869422720, 0, 0, 0, 0, 0, 0, 0, 0, 0, 0, 152]
    (0x67452301, 0xEFCDAB89, 0x98BADCFE, 0x10325476, 0xC3D2E1F0) =
    (3370515518, 4065255367, 3835054855, 3212394901, 1199212625)"
    by (simp add: rounds_numeral add32_def rotl_def round_f_def round_k_def not32_def)
  have b: "sha1_bytes (map of_char '' alice@example.com '') =
    (808132415, 3793521488, 2102470661, 3484128779, 189622849)"
    by (simp only: sha1_bytes_one_block l compress.simps w r prod.case) (simp add: add32_def)
  show ?thesis
    by (simp only: sha1_hex_def b prod.case) (simp add: hex_int_numeral hex_digit_def)
qed

lemma sha1_bob: "sha1_hex ''bob@example.com'' = ''a460e37bf4d8e893f8fd39536997d5da8d21eebe''"
proof -
  have l: "length (map of_char ''bob@example.com'' :: int list) = 15"
    by simp
  have w: "be_words (sha1_pad (map of_char ''bob@example.com'')) =
    [1651466816, 1702388077, 1886151982, 1668246912, 0, 0, 0, 0, 0, 0, 0, 0, 0, 0, 0, 120]"
    by (simp add: sha1_pad_def pad_zeros_def l be_bytes_numeral replicate_num)
  have r: "rounds 80 0
    [1651466816, 1702388077, 1886151982, 1668246912, 0, 0, 0, 0, 0, 0, 0, 0, 0, 0, 0, 120]
    (0x67452301, 0xEFCDAB89, 0x98BADCFE, 0x10325476, 0xC3D2E1F0) =
    (1025228922, 84622602, 1614961749, 1499824484, 3377401038)"
    by (simp add: rounds_numeral add32_def rotl_def round_f_def round_k_def not32_def)
  have b: "sha1_bytes (map of_char ''bob@example.com'') =
    (2757813115, 4107856019, 4177344851, 1771558362, 2367811262)"
    by (simp only: sha1_bytes_one_block l compress.simps w r prod.case) (simp add: add32_def)
  show ?thesis
    by (simp only: sha1_hex_def b prod.case) (simp add: hex_int_numeral hex_digit_def)
qed

section \<open>Payloads\<close>

text \<open>
  C9. The \<^verbatim>\<open>email_hash\<close> of each payload is the SHA-1 hex digest of the email of its
  editor, and that email is the value \<^verbatim>\<open>CONF.users\<close> holds for the matching name,
  passed on as it is: nothing lowers or trims it. So the same address written with other
  capitals, or with spaces around it, gets another \<^verbatim>\<open>email_hash\<close>, as three
  spellings of one address show.
\<close>

theorem email_hash_of_configured_email:
  "map email_hash (createRangePayloads ens)
     = map (\<lambda>ed. sha1_hex (email ed)) (concat (map editors ens))
   \<and> (\<forall>en \<in> set (snd (addEditorsSince js us m entries)). \<forall>ed \<in> set (editors en).
         getEmailFromHandle js us (name ed) = Some (email ed) \<and> email ed \<in> snd ` set us)
   \<and> email_hash (make_payload en \<lparr>name = n, email = ''Alice@Example.com''\<rparr>)
       = ''022ffe6981ab59475c1a142b6fd58f32857b500f''
   \<and> email_hash (make_payload en \<lparr>name = n, email = ''alice@example.com''\<rparr>)
       = ''fc2398a73dd54d6237c4fdb58fd7d75347cf5af3''
   \<and> email_hash (make_payload en \<lparr>name = n, email = '' alice@example.com ''\<rparr>)
       = ''302b1f3fe21c8b507d512805cfab960b0b4d6a41''
   \<and> email_hash (make_payload en \<lparr>name = n, email = ''Alice@Example.com''\<rparr>)
       \<noteq> email_hash (make_payload en \<lparr>name = n, email = ''alice@example.com''\<rparr>)
   \<and> email_hash (make_payload en \<lparr>name = n, email = '' alice@example.com ''\<rparr>)
       \<noteq> email_hash (make_payload en \<lparr>name = n, email = ''alice@example.com''\<rparr>)"
proof -
  have "map email_hash (createRangePayloads ens)
          = map (\<lambda>ed. sha1_hex (email ed)) (concat (map editors ens))"
    by (simp add: createRangePayloads_def make_payload_def map_concat comp_def)
  moreover have "getEmailFromHandle js us (name ed) = Some (email ed) \<and> email ed \<in> snd ` set us"
    if "en \<in> set (snd (addEditorsSince js us m entries))" and "ed \<in> set (editors en)" for en ed
    using editor_resolved [OF that] getEmailFromHandle_in_table by blast
  moreover have "email_hash (make_payload en \<lparr>name = n, email = e\<rparr>) = sha1_hex e" for e
    by (simp add: make_payload_def)
  ultimately show ?thesis
    by (simp add: sha1_Alice_mixed sha1_alice_lower sha1_alice_spaced)
qed

theorem email_hash_of_configured_email_witness:
  "map email_hash (createRangePayloads (snd (addEditorsSince ascii_methods example_users 1000 [example_entry])))
     = [''022ffe6981ab59475c1a142b6fd58f32857b500f'', ''a460e37bf4d8e893f8fd39536997d5da8d21eebe'']
   \<and> getEmailFromHandle ascii_methods example_users '' Alice '' = Some ''Alice@Example.com''
   \<and> ''Alice@Example.com'' \<in> snd ` set example_users"
proof -
  have e: "concat (map editors (snd (addEditorsSince ascii_methods example_users 1000 [example_entry])))
             = [\<lparr>name = '' Alice '', email = ''Alice@Example.com''\<rparr>,
                \<lparr>name = ''BOB'', email = ''bob@example.com''\<rparr>]"
    by (simp add: entries_addEditorsSince sample_editors del: addEditorsSince.simps)
  have t: "map email_hash (createRangePayloads (snd (addEditorsSince ascii_methods example_users 1000 [example_entry])))
             = map (\<lambda>ed. sha1_hex (email ed))
                 (concat (map editors (snd (addEditorsSince ascii_methods example_users 1000 [example_entry]))))"
    using email_hash_of_configured_email
            [of "snd (addEditorsSince ascii_methods example_users 1000 [example_entry])"]
    by blast
  have "''Alice@Example.com'' \<in> snd ` set example_users"
    by (simp add: example_users_def)
  with t show ?thesis
    by (simp only: e) (simp add: sha1_Alice_mixed sha1_bob sample_Alice)
qed

end
